theory Spec2Isabelle
  imports Complex_Main "HOL-Library.Word"
begin

unbundle bit_operations_syntax

section \<open>Configuration (config.py)\<close>

text \<open>
  The three dataclasses. They come first because two of their fields share a name with
  an attribute of the detector below; the configuration's fields are written
  \<open>WakeWordConfig.threshold\<close> and \<open>GeminiConfig.model\<close>.
\<close>

record AudioConfig =
  send_sample_rate :: int
  receive_sample_rate :: int
  playback_sample_rate :: int
  chunk_size :: int
  channels :: int
  format_width :: int
  input_device_index :: "int option"
  output_device_index :: "int option"

record GeminiConfig =
  model :: string
  system_instruction :: string

record WakeWordConfig =
  enabled :: bool
  model_path :: "string option"
  threshold :: real
  timeout :: real
  inference_framework :: string

definition AudioConfig_default :: AudioConfig where
  "AudioConfig_default =
     \<lparr>send_sample_rate = 16000, receive_sample_rate = 24000, playback_sample_rate = 16000,
      chunk_size = 1024, channels = 1, format_width = 2,
      input_device_index = Some 1, output_device_index = Some 1\<rparr>"

definition GeminiConfig_default :: GeminiConfig where
  "GeminiConfig_default =
     \<lparr>model = ''gemini-2.5-flash-native-audio-preview-12-2025'',
      system_instruction = ''You are a helpful, friendly voice assistant.''\<rparr>"

definition WakeWordConfig_default :: WakeWordConfig where
  "WakeWordConfig_default =
     \<lparr>enabled = True, model_path = None, threshold = 1 / 2, timeout = 30,
      inference_framework = ''onnx''\<rparr>"

section \<open>Wake word detector (wakeword.py)\<close>

subsection \<open>Data\<close>

type_synonym byte = "8 word"
type_synonym int16 = "16 word"
type_synonym frame = "int16 list"
type_synonym label = string

text \<open>
  The classifier is the external \<^verbatim>\<open>openwakeword.model.Model\<close>. The detector uses two of
  its methods: \<^verbatim>\<open>predict(chunk)\<close>, which returns a dictionary from label to score and may
  change the classifier's hidden state, and \<^verbatim>\<open>reset()\<close>. The object is a record of the two
  methods, as functions on the hidden state, and the hidden state itself. A Python
  dictionary iterates in insertion order, so a prediction is an association list.
  Scores and the threshold are Python floats; they are compared as real numbers.
\<close>

record 'm Model =
  predict :: "'m \<Rightarrow> frame \<Rightarrow> (label \<times> real) list \<times> 'm"
  model_reset :: "'m \<Rightarrow> 'm"
  hidden :: 'm

text \<open>The attributes of \<^verbatim>\<open>WakeWordDetector\<close> that \<^verbatim>\<open>__init__\<close> assigns.\<close>

record 'm WakeWordDetector =
  model :: "'m Model"
  model_names :: "string list"
  threshold :: real
  buffer :: "int16 list"
  chunk_samples :: nat

text \<open>
  Python exceptions, all of them subclasses of \<^verbatim>\<open>Exception\<close>: the \<^verbatim>\<open>ValueError\<close> raised
  by \<^verbatim>\<open>np.frombuffer\<close> and by \<^verbatim>\<open>VoiceAssistant.__init__\<close>, and any other exception
  raised by an external collaborator (the remote session, the audio devices), with its
  message.
\<close>

datatype error = ValueError | Exception string

subsection \<open>Operations\<close>

text \<open>
  \<^verbatim>\<open>__init__\<close>. The classifier that \<^verbatim>\<open>Model(...)\<close> loads is an input. The model name is
  \<^verbatim>\<open>model_path.split("/")[-1].replace(".onnx", "")\<close> when a non-empty path is given
  (\<open>path\<close> is the argument \<^verbatim>\<open>model_path\<close>, \<open>thr\<close> the argument \<^verbatim>\<open>threshold\<close>).
\<close>

definition last_segment :: "string \<Rightarrow> string" where
  "last_segment path = rev (takeWhile (\<lambda>c. c \<noteq> CHR ''/'') (rev path))"

fun remove_onnx :: "string \<Rightarrow> string" where
  "remove_onnx [] = []"
| "remove_onnx (c # cs) =
     (if take 5 (c # cs) = ''.onnx'' then remove_onnx (drop 4 cs) else c # remove_onnx cs)"

definition WakeWordDetector_init ::
  "'m Model \<Rightarrow> string option \<Rightarrow> real \<Rightarrow> 'm WakeWordDetector" where
  "WakeWordDetector_init loaded path thr =
     \<lparr>model = loaded,
      model_names =
        (case path of
           Some (c # cs) \<Rightarrow> [remove_onnx (last_segment (c # cs))]
         | _ \<Rightarrow> [''hey_jarvis'']),
      threshold = thr, buffer = [], chunk_samples = 1280\<rparr>"

text \<open>
  \<^verbatim>\<open>np.frombuffer(audio_chunk, dtype=np.int16)\<close>: two bytes make one sample (native byte
  order, little-endian here); a buffer whose size is not a multiple of the element size
  raises \<^verbatim>\<open>ValueError\<close>, an empty buffer gives an empty array.
\<close>

fun frombuffer :: "byte list \<Rightarrow> error + int16 list" where
  "frombuffer [] = Inr []"
| "frombuffer [b] = Inl ValueError"
| "frombuffer (lo # hi # rest) =
     (case frombuffer rest of
        Inl e \<Rightarrow> Inl e
      | Inr xs \<Rightarrow> Inr ((ucast lo OR push_bit 8 (ucast hi)) # xs))"

text \<open>\<^verbatim>\<open>reset\<close>: resets the classifier and replaces the buffer by an empty array.\<close>

definition reset :: "'m WakeWordDetector \<Rightarrow> 'm WakeWordDetector" where
  "reset d =
     d\<lparr>model := (model d)\<lparr>hidden := model_reset (model d) (hidden (model d))\<rparr>,
       buffer := []\<rparr>"

text \<open>
  The \<^verbatim>\<open>for wake_word, score in prediction.items()\<close> loop: the first label, in iteration
  order, whose score is at least the threshold.
\<close>

fun check_scores :: "real \<Rightarrow> (label \<times> real) list \<Rightarrow> label option" where
  "check_scores thr [] = None"
| "check_scores thr ((wake_word, score) # rest) =
     (if score \<ge> thr then Some wake_word else check_scores thr rest)"

text \<open>
  The \<^verbatim>\<open>while len(self._buffer) >= self._chunk_samples\<close> loop. Besides the detector it
  carries the frames passed to \<^verbatim>\<open>predict\<close> so far, in call order. The result is the
  value returned, the detector afterwards, and those frames. A loop that never ends has
  no result (\<open>None\<close>).
\<close>

partial_function (option) process_chunks ::
  "'m WakeWordDetector \<Rightarrow> frame list
     \<Rightarrow> (label option \<times> 'm WakeWordDetector \<times> frame list) option"
where
  "process_chunks d scored =
     (if length (buffer d) \<ge> chunk_samples d then
        (let chunk = take (chunk_samples d) (buffer d);
             d1 = d\<lparr>buffer := drop (chunk_samples d) (buffer d)\<rparr>;
             r = predict (model d1) (hidden (model d1)) chunk;
             d2 = d1\<lparr>model := (model d1)\<lparr>hidden := snd r\<rparr>\<rparr>
         in case check_scores (threshold d2) (fst r) of
              Some wake_word \<Rightarrow> Some (Some wake_word, reset d2, scored @ [chunk])
            | None \<Rightarrow> process_chunks d2 (scored @ [chunk]))
      else Some (None, d, scored))"

declare process_chunks.simps [code]

text \<open>
  \<^verbatim>\<open>process_audio\<close>. When \<^verbatim>\<open>np.frombuffer\<close> raises, nothing has been assigned yet and the
  detector is as it was.
\<close>

definition process_audio ::
  "'m WakeWordDetector \<Rightarrow> byte list
     \<Rightarrow> (error + label option \<times> 'm WakeWordDetector \<times> frame list) option"
where
  "process_audio d audio_chunk =
     (case frombuffer audio_chunk of
        Inl e \<Rightarrow> Some (Inl e)
      | Inr audio_array \<Rightarrow>
          map_option Inr (process_chunks (d\<lparr>buffer := buffer d @ audio_array\<rparr>) []))"

section \<open>Voice assistant (assistant.py)\<close>

subsection \<open>Data\<close>

datatype AssistantState = LISTENING | ACTIVATED | RESPONDING

text \<open>
  \<^verbatim>\<open>AudioCapture\<close> and \<^verbatim>\<open>AudioPlayer\<close> are defined in \<^verbatim>\<open>audio.py\<close>, which is not among the
  sources. The methods the orchestrator calls are parameters: functions on the state of
  the device, which do not raise.
\<close>

record 'c AudioCapture =
  capture_start :: "'c \<Rightarrow> 'c"
  capture_stop :: "'c \<Rightarrow> 'c"
  capture_dev :: 'c

record 'p AudioPlayer =
  player_start :: "'p \<Rightarrow> 'p"
  player_stop :: "'p \<Rightarrow> 'p"
  play_sync :: "'p \<Rightarrow> byte list \<Rightarrow> 'p"
  player_dev :: 'p

text \<open>
  The attributes of \<^verbatim>\<open>VoiceAssistant\<close>. The remote client \<^verbatim>\<open>_client\<close> is left out: what a
  session does is an input of \<open>run_session\<close> below.
\<close>

record ('m, 'c, 'p) VoiceAssistant =
  audio_config :: AudioConfig
  gemini_config :: GeminiConfig
  wakeword_config :: WakeWordConfig
  capture :: "'c AudioCapture"
  player :: "'p AudioPlayer"
  running :: bool
  state :: AssistantState
  last_activity_time :: real
  wakeword_detector :: "'m WakeWordDetector option"

text \<open>
  The messages of a server response that \<^verbatim>\<open>_receive_audio\<close> reads: the optional
  \<^verbatim>\<open>server_content\<close> with its optional \<^verbatim>\<open>model_turn\<close> (a list of parts, each with optional
  inline audio) and its \<^verbatim>\<open>turn_complete\<close> flag.
\<close>

datatype part = Part (inline_data: "byte list option")

record server_content =
  model_turn :: "part list option"
  turn_complete :: bool

text \<open>
  What the code does besides changing the assistant, in the order it does it: the lines
  it prints, and every assignment to \<^verbatim>\<open>self._state\<close> after \<^verbatim>\<open>__init__\<close>, with the place in the
  code that makes it and the value assigned.
\<close>

datatype message =
    Listening_for_wake_word
  | Wake_word_detected label
  | Connected
  | Session_error error
  | Receive_error error
  | Timeout_returning
  | Error error
  | Shutting_down

datatype site =
    Session_start
  | Model_turn
  | Turn_complete
  | Watchdog_timeout
  | Session_end
  | Shut_down

datatype effect = Print message | Set_state site AssistantState

subsection \<open>Start-up and shutdown\<close>

text \<open>
  \<^verbatim>\<open>__init__\<close>. The value of the environment variable \<^verbatim>\<open>GEMINI_API_KEY\<close> is an input
  (\<open>None\<close> when it is not set), as are the capture and player objects that the
  constructors return and the classifier that the detector loads. The detector is made
  only when wake word detection is enabled.
\<close>

definition VoiceAssistant_init ::
  "string option \<Rightarrow> AudioConfig option \<Rightarrow> GeminiConfig option \<Rightarrow> WakeWordConfig option
     \<Rightarrow> 'c AudioCapture \<Rightarrow> 'p AudioPlayer \<Rightarrow> 'm Model
     \<Rightarrow> error + ('m, 'c, 'p) VoiceAssistant" where
  "VoiceAssistant_init api_key audio gemini wakeword new_capture new_player loaded =
     (let audio_config = (case audio of Some c \<Rightarrow> c | None \<Rightarrow> AudioConfig_default);
          gemini_config = (case gemini of Some c \<Rightarrow> c | None \<Rightarrow> GeminiConfig_default);
          wakeword_config = (case wakeword of Some c \<Rightarrow> c | None \<Rightarrow> WakeWordConfig_default)
      in if api_key = None \<or> api_key = Some [] then Inl ValueError
         else Inr \<lparr>audio_config = audio_config, gemini_config = gemini_config,
                   wakeword_config = wakeword_config,
                   capture = new_capture, player = new_player,
                   running = False, state = LISTENING, last_activity_time = 0,
                   wakeword_detector =
                     (if enabled wakeword_config
                      then Some (WakeWordDetector_init loaded (model_path wakeword_config)
                                   (WakeWordConfig.threshold wakeword_config))
                      else None)\<rparr>)"

text \<open>\<^verbatim>\<open>shutdown\<close>.\<close>

definition shutdown ::
  "('m, 'c, 'p) VoiceAssistant \<Rightarrow> effect list \<times> ('m, 'c, 'p) VoiceAssistant" where
  "shutdown a =
     (if \<not> running a then ([], a)
      else ([Print Shutting_down, Set_state Shut_down LISTENING],
            a\<lparr>running := False, state := LISTENING,
              capture := (capture a)\<lparr>capture_dev :=
                capture_stop (capture a) (capture_dev (capture a))\<rparr>,
              player := (player a)\<lparr>player_dev :=
                player_stop (player a) (player_dev (player a))\<rparr>\<rparr>))"

subsection \<open>The three tasks of a session\<close>

text \<open>
  The tasks are coroutines on one event loop: between two \<^verbatim>\<open>await\<close>s a task runs alone.
  Each definition here is such a piece of code. The first component of the result
  tells whether the piece ends with \<^verbatim>\<open>break\<close>.
\<close>

text \<open>
  \<^verbatim>\<open>_receive_audio\<close>, the body of \<^verbatim>\<open>async for response in session.receive()\<close> for one
  response; \<open>now\<close> is the value of \<^verbatim>\<open>time.monotonic()\<close>.
\<close>

definition play_parts :: "part list \<Rightarrow> 'p AudioPlayer \<Rightarrow> 'p AudioPlayer" where
  "play_parts parts p =
     fold (\<lambda>part p. case inline_data part of
                       None \<Rightarrow> p
                     | Some data \<Rightarrow> p\<lparr>player_dev := play_sync p (player_dev p) data\<rparr>)
       parts p"

definition on_response ::
  "server_content option \<Rightarrow> real \<Rightarrow> ('m, 'c, 'p) VoiceAssistant
     \<Rightarrow> bool \<times> effect list \<times> ('m, 'c, 'p) VoiceAssistant" where
  "on_response response now a =
     (if \<not> running a \<or> state a = LISTENING then (True, [], a)
      else case response of
             None \<Rightarrow> (False, [], a)
           | Some content \<Rightarrow>
               (let (out1, a1) =
                      (case model_turn content of
                         None \<Rightarrow> ([], a)
                       | Some parts \<Rightarrow>
                           ([Set_state Model_turn RESPONDING],
                            a\<lparr>state := RESPONDING, player := play_parts parts (player a)\<rparr>));
                    (out2, a2) =
                      (if turn_complete content
                       then ([Set_state Turn_complete ACTIVATED],
                             a1\<lparr>state := ACTIVATED, last_activity_time := now\<rparr>)
                       else ([], a1))
                in (False, out1 @ out2, a2)))"

text \<open>\<^verbatim>\<open>_receive_audio\<close>, the \<^verbatim>\<open>except Exception\<close> handler; it is followed by \<^verbatim>\<open>break\<close>.\<close>

definition on_receive_error ::
  "error \<Rightarrow> ('m, 'c, 'p) VoiceAssistant \<Rightarrow> effect list \<times> ('m, 'c, 'p) VoiceAssistant" where
  "on_receive_error e a = (if running a then [Print (Receive_error e)] else [], a)"

text \<open>
  \<^verbatim>\<open>_check_timeout\<close>, the body of the loop after \<^verbatim>\<open>asyncio.sleep(1.0)\<close> has returned; \<open>now\<close> is
  the value of \<^verbatim>\<open>time.monotonic()\<close>.
\<close>

definition on_wakeup ::
  "real \<Rightarrow> ('m, 'c, 'p) VoiceAssistant
     \<Rightarrow> bool \<times> effect list \<times> ('m, 'c, 'p) VoiceAssistant" where
  "on_wakeup now a =
     (if state a = ACTIVATED then
        (let elapsed = now - last_activity_time a
         in if elapsed \<ge> timeout (wakeword_config a)
            then (True, [Print Timeout_returning, Set_state Watchdog_timeout LISTENING],
                  a\<lparr>state := LISTENING\<rparr>)
            else (False, [], a))
      else (False, [], a))"

text \<open>
  \<^verbatim>\<open>_send_audio\<close>: after \<^verbatim>\<open>await session.send(...)\<close> has returned, the activity time is
  stamped. The test before the send only decides whether the task goes on.
\<close>

definition on_sent ::
  "real \<Rightarrow> ('m, 'c, 'p) VoiceAssistant \<Rightarrow> effect list \<times> ('m, 'c, 'p) VoiceAssistant" where
  "on_sent now a = ([], a\<lparr>last_activity_time := now\<rparr>)"

text \<open>
  One step of a session: a piece of one of the three tasks, or a call of \<^verbatim>\<open>shutdown\<close> by
  whoever holds the assistant. A list of steps is one interleaving of the tasks. The tasks
  are not cancelled, so a list may hold any steps in any order; the runs of the code are
  among them.
\<close>

datatype step =
    Sent real
  | Received "server_content option" real
  | Receive_raises error
  | Woke real
  | Stop_requested

fun fire ::
  "step \<Rightarrow> ('m, 'c, 'p) VoiceAssistant \<Rightarrow> effect list \<times> ('m, 'c, 'p) VoiceAssistant" where
  "fire (Sent now) a = on_sent now a"
| "fire (Received response now) a = snd (on_response response now a)"
| "fire (Receive_raises e) a = on_receive_error e a"
| "fire (Woke now) a = snd (on_wakeup now a)"
| "fire Stop_requested a = shutdown a"

fun fire_all ::
  "step list \<Rightarrow> ('m, 'c, 'p) VoiceAssistant \<Rightarrow> effect list \<times> ('m, 'c, 'p) VoiceAssistant"
where
  "fire_all [] a = ([], a)"
| "fire_all (s # steps) a =
     (let (out1, a1) = fire s a; (out2, a2) = fire_all steps a1 in (out1 @ out2, a2))"




subsection \<open>The orchestrator\<close>

text \<open>
  \<^verbatim>\<open>_listen_for_wakeword\<close>. The stream of the microphone is a list of chunks, each with the
  steps that others made while the chunk was awaited; the list ends where the stream
  ends. \<open>Inl\<close> is an exception of \<^verbatim>\<open>process_audio\<close>, with what had been done before it.
\<close>

fun listen_stream ::
  "(step list \<times> byte list) list \<Rightarrow> 'm WakeWordDetector \<Rightarrow> ('m, 'c, 'p) VoiceAssistant
     \<Rightarrow> (error \<times> effect list \<times> ('m, 'c, 'p) VoiceAssistant
          + bool \<times> effect list \<times> ('m, 'c, 'p) VoiceAssistant) option" where
  "listen_stream [] d a = Some (Inr (False, [], a\<lparr>wakeword_detector := Some d\<rparr>))"
| "listen_stream ((others, chunk) # rest) d a =
     (let (out1, a1) = fire_all others a
      in if \<not> running a1 then Some (Inr (False, out1, a1\<lparr>wakeword_detector := Some d\<rparr>))
         else case process_audio d chunk of
                None \<Rightarrow> None
              | Some (Inl e) \<Rightarrow> Some (Inl (e, out1, a1\<lparr>wakeword_detector := Some d\<rparr>))
              | Some (Inr (detected, d', scored)) \<Rightarrow>
                  (case detected of
                     Some (c # cs) \<Rightarrow>
                       Some (Inr (True, out1 @ [Print (Wake_word_detected (c # cs))],
                                  a1\<lparr>wakeword_detector := Some d'\<rparr>))
                   | _ \<Rightarrow>
                       (case listen_stream rest d' a1 of
                          None \<Rightarrow> None
                        | Some (Inl (e, out2, a2)) \<Rightarrow> Some (Inl (e, out1 @ out2, a2))
                        | Some (Inr (found, out2, a2)) \<Rightarrow>
                            Some (Inr (found, out1 @ out2, a2)))))"

definition listen_for_wakeword ::
  "(step list \<times> byte list) list \<Rightarrow> ('m, 'c, 'p) VoiceAssistant
     \<Rightarrow> (error \<times> effect list \<times> ('m, 'c, 'p) VoiceAssistant
          + bool \<times> effect list \<times> ('m, 'c, 'p) VoiceAssistant) option" where
  "listen_for_wakeword stream a =
     (case wakeword_detector a of
        None \<Rightarrow> Some (Inr (True, [], a))
      | Some d \<Rightarrow>
          (case listen_stream stream (reset d) a of
             None \<Rightarrow> None
           | Some (Inl (e, out, a')) \<Rightarrow> Some (Inl (e, Print Listening_for_wake_word # out, a'))
           | Some (Inr (found, out, a')) \<Rightarrow>
               Some (Inr (found, Print Listening_for_wake_word # out, a'))))"

text \<open>
  \<^verbatim>\<open>_run_session\<close>. What happens inside the \<^verbatim>\<open>try\<close> block is an input: opening the session
  raises; or the session opens, the tasks make their steps, and \<^verbatim>\<open>asyncio.gather\<close> raises
  the exception of one of them or returns. \<open>now\<close> is the value of \<^verbatim>\<open>time.monotonic()\<close> at
  the start.
\<close>

datatype session =
    Connect_raises error
  | Tasks_raise "step list" error
  | Tasks_return "step list"

definition run_session ::
  "real \<Rightarrow> session \<Rightarrow> ('m, 'c, 'p) VoiceAssistant
     \<Rightarrow> effect list \<times> ('m, 'c, 'p) VoiceAssistant" where
  "run_session now s a =
     (let a1 = a\<lparr>state := ACTIVATED, last_activity_time := now\<rparr>;
          (out, a2) =
            (case s of
               Connect_raises e \<Rightarrow> ([Print (Session_error e)], a1)
             | Tasks_raise steps e \<Rightarrow>
                 (let (out1, a') = fire_all steps a1
                  in (Print Connected # out1 @ [Print (Session_error e)], a'))
             | Tasks_return steps \<Rightarrow>
                 (let (out1, a') = fire_all steps a1 in (Print Connected # out1, a')))
      in (Set_state Session_start ACTIVATED # out @ [Set_state Session_end LISTENING],
          a2\<lparr>state := LISTENING\<rparr>))"

text \<open>
  \<^verbatim>\<open>run\<close>, the \<^verbatim>\<open>while self._running\<close> loop. Its input is one entry for each turn of the loop:
  the stream heard while listening, and the time and the course of the session. With
  detection disabled the loop does not listen and goes on to the session at once. When
  the entries run out while the loop goes on, the loop has no result (\<open>None\<close>).
\<close>

record cycle =
  heard :: "(step list \<times> byte list) list"
  entered :: real
  course :: session

fun run_loop ::
  "cycle list \<Rightarrow> ('m, 'c, 'p) VoiceAssistant
     \<Rightarrow> (error \<times> effect list \<times> ('m, 'c, 'p) VoiceAssistant
          + effect list \<times> ('m, 'c, 'p) VoiceAssistant) option" where
  "run_loop [] a = (if running a then None else Some (Inr ([], a)))"
| "run_loop (c # rest) a =
     (if running a then
        (case (if enabled (wakeword_config a) then listen_for_wakeword (heard c) a
               else Some (Inr (True, [], a))) of
           None \<Rightarrow> None
         | Some (Inl (e, out1, a1)) \<Rightarrow> Some (Inl (e, out1, a1))
         | Some (Inr (detected, out1, a1)) \<Rightarrow>
             if \<not> detected then Some (Inr (out1, a1))
             else (let (out2, a2) = run_session (entered c) (course c) a1
                   in if \<not> enabled (wakeword_config a2) then Some (Inr (out1 @ out2, a2))
                      else case run_loop rest a2 of
                             None \<Rightarrow> None
                           | Some (Inl (e, out3, a3)) \<Rightarrow>
                               Some (Inl (e, out1 @ out2 @ out3, a3))
                           | Some (Inr (out3, a3)) \<Rightarrow> Some (Inr (out1 @ out2 @ out3, a3))))
      else Some (Inr ([], a)))"

text \<open>
  \<^verbatim>\<open>run\<close>. The start-up banner (prints only) is left out. An exception of the loop is caught
  and printed; \<^verbatim>\<open>shutdown\<close> is called in either case.
\<close>

definition run ::
  "cycle list \<Rightarrow> ('m, 'c, 'p) VoiceAssistant
     \<Rightarrow> (effect list \<times> ('m, 'c, 'p) VoiceAssistant) option" where
  "run cycles a =
     (let a0 = a\<lparr>running := True,
                 capture := (capture a)\<lparr>capture_dev :=
                   capture_start (capture a) (capture_dev (capture a))\<rparr>,
                 player := (player a)\<lparr>player_dev :=
                   player_start (player a) (player_dev (player a))\<rparr>\<rparr>
      in case run_loop cycles a0 of
           None \<Rightarrow> None
         | Some (Inl (e, out1, a1)) \<Rightarrow>
             (let (out2, a2) = shutdown a1 in Some (out1 @ [Print (Error e)] @ out2, a2))
         | Some (Inr (out1, a1)) \<Rightarrow>
             (let (out2, a2) = shutdown a1 in Some (out1 @ out2, a2)))"

section \<open>Notions for stating the claims\<close>

text \<open>
  The definitions of this section are not translations of the code. They name what the
  claims speak about (the frames of a sample sequence, the moves of the state machine in
  a list of effects) and give inputs for concrete runs.
\<close>

text \<open>
  What the claims call the full frames of a sample sequence: its consecutive slices of
  \<open>n\<close> samples, oldest first, and the samples left over after them.
\<close>

definition frames_of :: "nat \<Rightarrow> 'a list \<Rightarrow> 'a list list" where
  "frames_of n xs = map (\<lambda>i. take n (drop (i * n) xs)) [0..<length xs div n]"

definition pending_of :: "nat \<Rightarrow> 'a list \<Rightarrow> 'a list" where
  "pending_of n xs = drop (n * (length xs div n)) xs"

text \<open>
  Scoring a list of frames in order until the first detection, as a recursion over the
  list: the label (if any), the classifier's hidden state afterwards and the frames
  scored. \<open>finish\<close> turns that into the result of the loop. The loop is shown to
  compute exactly this (\<open>process_chunks_refine\<close>).
\<close>

fun score_frames ::
  "('m \<Rightarrow> frame \<Rightarrow> (label \<times> real) list \<times> 'm) \<Rightarrow> real \<Rightarrow> 'm \<Rightarrow> frame list
     \<Rightarrow> label option \<times> 'm \<times> frame list" where
  "score_frames mdl thr h [] = (None, h, [])"
| "score_frames mdl thr h (f # fs) =
     (let r = mdl h f
      in case check_scores thr (fst r) of
           Some w \<Rightarrow> (Some w, snd r, [f])
         | None \<Rightarrow> (case score_frames mdl thr (snd r) fs of
                      (res, h', scored) \<Rightarrow> (res, h', f # scored)))"

definition finish ::
  "'m WakeWordDetector \<Rightarrow> frame list \<Rightarrow> label option \<times> 'm \<times> frame list
     \<Rightarrow> label option \<times> 'm WakeWordDetector \<times> frame list" where
  "finish d scored r =
     (case r of
        (None, h, fs) \<Rightarrow>
          (None,
           d\<lparr>buffer := pending_of (chunk_samples d) (buffer d),
             model := (model d)\<lparr>hidden := h\<rparr>\<rparr>,
           scored @ fs)
      | (Some w, h, fs) \<Rightarrow>
          (Some w,
           d\<lparr>buffer := [], model := (model d)\<lparr>hidden := model_reset (model d) h\<rparr>\<rparr>,
           scored @ fs))"

text \<open>
  The classifier's hidden state after it has scored the given frames in order, and the
  scores it gives to frame \<open>i\<close> of a list when the frames before it have been scored.
\<close>

fun hidden_after ::
  "('m \<Rightarrow> frame \<Rightarrow> (label \<times> real) list \<times> 'm) \<Rightarrow> 'm \<Rightarrow> frame list \<Rightarrow> 'm" where
  "hidden_after pr h [] = h"
| "hidden_after pr h (f # fs) = hidden_after pr (snd (pr h f)) fs"


text \<open>
  Successive calls of \<^verbatim>\<open>process_audio\<close> on one detector, one per chunk: the values
  returned, the detector afterwards and all frames scored. An exception ends the sequence.
\<close>

fun push_all ::
  "'m WakeWordDetector \<Rightarrow> byte list list
     \<Rightarrow> (error + label option list \<times> 'm WakeWordDetector \<times> frame list) option" where
  "push_all d [] = Some (Inr ([], d, []))"
| "push_all d (c # cs) =
     (case process_audio d c of
        None \<Rightarrow> None
      | Some (Inl e) \<Rightarrow> Some (Inl e)
      | Some (Inr (r, d', fs)) \<Rightarrow>
          (case push_all d' cs of
             None \<Rightarrow> None
           | Some (Inl e) \<Rightarrow> Some (Inl e)
           | Some (Inr (rs, d'', fs')) \<Rightarrow> Some (Inr (r # rs, d'', fs @ fs'))))"

text \<open>
  Classifiers for concrete runs: one that always scores 0.1, and one that replays a
  script of scores for the label \<^verbatim>\<open>hey-x\<close>, one score per frame.
\<close>

definition quiet_model :: "unit Model" where
  "quiet_model = \<lparr>predict = (\<lambda>h f. ([(''hey_jarvis'', 1 / 10)], h)),
                   model_reset = (\<lambda>h. h), hidden = ()\<rparr>"

definition quiet_detector :: "unit WakeWordDetector" where
  "quiet_detector = \<lparr>model = quiet_model, model_names = [''hey_jarvis''],
                      threshold = 1 / 2, buffer = [], chunk_samples = 1280\<rparr>"

definition scripted_model :: "real list \<Rightarrow> real list Model" where
  "scripted_model scores =
     \<lparr>predict = (\<lambda>h f. case h of [] \<Rightarrow> ([], []) | s # rest \<Rightarrow> ([(''hey-x'', s)], rest)),
      model_reset = (\<lambda>h. h), hidden = scores\<rparr>"

definition scripted_detector :: "real list \<Rightarrow> real list WakeWordDetector" where
  "scripted_detector scores =
     \<lparr>model = scripted_model scores, model_names = [''hey-x''],
      threshold = 1 / 2, buffer = [], chunk_samples = 1280\<rparr>"

text \<open>
  An assistant for concrete runs: devices whose state tells whether they are open (and,
  for the player, what has been played), the default configuration with a model path,
  and a detector that replays a script of scores.
\<close>

definition demo_capture :: "bool AudioCapture" where
  "demo_capture =
     \<lparr>capture_start = (\<lambda>_. True), capture_stop = (\<lambda>_. False), capture_dev = False\<rparr>"

definition demo_player :: "(bool \<times> byte list list) AudioPlayer" where
  "demo_player =
     \<lparr>player_start = (\<lambda>(_, played). (True, played)),
      player_stop = (\<lambda>(_, played). (False, played)),
      play_sync = (\<lambda>(opened, played) data. (opened, played @ [data])),
      player_dev = (False, [])\<rparr>"

definition demo_assistant ::
  "real list \<Rightarrow> (real list, bool, bool \<times> byte list list) VoiceAssistant" where
  "demo_assistant scores =
     \<lparr>audio_config = AudioConfig_default, gemini_config = GeminiConfig_default,
      wakeword_config = WakeWordConfig_default\<lparr>model_path := Some ''models/hey-x.onnx''\<rparr>,
      capture = demo_capture, player = demo_player,
      running = False, state = LISTENING, last_activity_time = 0,
      wakeword_detector = Some (scripted_detector scores)\<rparr>"


definition every_second :: "real \<Rightarrow> nat \<Rightarrow> real list" where
  "every_second t0 n = map (\<lambda>i. t0 + real (Suc i)) [0..<n]"

text \<open>
  Reading the assignments to the state off a list of effects: each as the value before,
  the place in the code, and the value assigned; and the value after all of them.
\<close>

fun moves :: "AssistantState \<Rightarrow> effect list \<Rightarrow> (AssistantState \<times> site \<times> AssistantState) list"
where
  "moves s [] = []"
| "moves s (Print msg # out) = moves s out"
| "moves s (Set_state place s' # out) = (s, place, s') # moves s' out"

fun state_after :: "AssistantState \<Rightarrow> effect list \<Rightarrow> AssistantState" where
  "state_after s [] = s"
| "state_after s (Print msg # out) = state_after s out"
| "state_after s (Set_state place s' # out) = state_after s' out"

text \<open>
  The moves of the state machine: a session starts from \<open>LISTENING\<close>; a model turn and a
  completed turn alternate between \<open>ACTIVATED\<close> and \<open>RESPONDING\<close> (or repeat the value);
  the watchdog leaves \<open>ACTIVATED\<close> only; shutdown and the end of the session lead to
  \<open>LISTENING\<close> from any state.
\<close>

definition allowed :: "AssistantState \<times> site \<times> AssistantState \<Rightarrow> bool" where
  "allowed m \<longleftrightarrow>
     m \<in> {(LISTENING, Session_start, ACTIVATED),
          (ACTIVATED, Model_turn, RESPONDING), (RESPONDING, Model_turn, RESPONDING),
          (RESPONDING, Turn_complete, ACTIVATED), (ACTIVATED, Turn_complete, ACTIVATED),
          (ACTIVATED, Watchdog_timeout, LISTENING),
          (ACTIVATED, Shut_down, LISTENING), (RESPONDING, Shut_down, LISTENING),
          (LISTENING, Shut_down, LISTENING),
          (ACTIVATED, Session_end, LISTENING), (RESPONDING, Session_end, LISTENING),
          (LISTENING, Session_end, LISTENING)}"

text \<open>
  Every start of a session comes right after the line that reports a detected wake word.
  The flag tells whether the effect before the list was such a line.
\<close>

fun is_start :: "effect \<Rightarrow> bool" where
  "is_start (Set_state Session_start s) = True"
| "is_start e = False"

fun is_detection :: "effect \<Rightarrow> bool" where
  "is_detection (Print (Wake_word_detected w)) = True"
| "is_detection e = False"


text \<open>Effects that start no session and make allowed moves only, from state \<open>s\<close>.\<close>

definition inside :: "AssistantState \<Rightarrow> effect list \<Rightarrow> bool" where
  "inside s out \<longleftrightarrow> (\<forall>m \<in> set (moves s out). allowed m) \<and> (\<forall>e \<in> set out. \<not> is_start e)"

text \<open>
  What listening leaves behind: the state is still \<open>LISTENING\<close>, no session was started,
  the configuration is the same, the detector is in place, and a detection was printed
  last if one is reported.
\<close>

definition listened ::
  "('m, 'c, 'p) VoiceAssistant \<Rightarrow> bool \<Rightarrow> effect list \<Rightarrow> ('m, 'c, 'p) VoiceAssistant \<Rightarrow> bool"
where
  "listened a found out a' \<longleftrightarrow>
     state a' = LISTENING \<and> inside LISTENING out \<and> state_after LISTENING out = LISTENING \<and>
     wakeword_config a' = wakeword_config a \<and> wakeword_detector a' \<noteq> None \<and>
     (found \<longrightarrow> out \<noteq> [] \<and> is_detection (last out))"






text \<open>The default assistant with wake word detection disabled, as \<^verbatim>\<open>__init__\<close> makes it.\<close>

definition plain_assistant :: "(real list, bool, bool \<times> byte list list) VoiceAssistant" where
  "plain_assistant =
     (demo_assistant [])\<lparr>wakeword_config := WakeWordConfig_default\<lparr>enabled := False\<rparr>,
                          wakeword_detector := None\<rparr>"

section \<open>Verification\<close>

subsection \<open>The loop computes the frames of the buffer\<close>

lemma frames_of_short: "length xs < n \<Longrightarrow> frames_of n xs = []"
  by (simp add: frames_of_def)

lemma pending_of_short: "length xs < n \<Longrightarrow> pending_of n xs = xs"
  by (simp add: pending_of_def)

lemma div_step: "0 < n \<Longrightarrow> n \<le> m \<Longrightarrow> m div n = Suc ((m - n) div n)" for m n :: nat
  by (simp add: le_div_geq)

lemma frames_of_step:
  assumes "0 < n" "n \<le> length xs"
  shows "frames_of n xs = take n xs # frames_of n (drop n xs)"
proof -
  have d: "length xs div n = Suc (length (drop n xs) div n)"
    using assms by (simp add: div_step)
  have "[0..<Suc (length (drop n xs) div n)] = 0 # map Suc [0..<length (drop n xs) div n]"
    by (simp add: upt_conv_Cons map_Suc_upt del: upt_Suc)
  then show ?thesis
    unfolding frames_of_def d by (simp add: o_def add.commute del: upt_Suc)
qed

lemma pending_of_step:
  assumes "0 < n" "n \<le> length xs"
  shows "pending_of n xs = pending_of n (drop n xs)"
proof -
  have d: "length xs div n = Suc (length (drop n xs) div n)"
    using assms by (simp add: div_step)
  show ?thesis unfolding pending_of_def d by (simp add: add.commute)
qed

lemma process_chunks_refine:
  assumes "0 < chunk_samples d"
  shows "process_chunks d scored =
         Some (finish d scored
           (score_frames (predict (model d)) (threshold d) (hidden (model d))
              (frames_of (chunk_samples d) (buffer d))))"
  using assms
proof (induction "length (buffer d)" arbitrary: d scored rule: less_induct)
  case less
  show ?case
  proof (cases "chunk_samples d \<le> length (buffer d)")
    case False
    then show ?thesis
      by (subst process_chunks.simps)
         (simp add: frames_of_short pending_of_short finish_def)
  next
    case True
    define chunk where "chunk = take (chunk_samples d) (buffer d)"
    define r where "r = predict (model d) (hidden (model d)) chunk"
    define d2 where
      "d2 = d\<lparr>buffer := drop (chunk_samples d) (buffer d),
              model := (model d)\<lparr>hidden := snd r\<rparr>\<rparr>"
    have fr: "frames_of (chunk_samples d) (buffer d) =
              chunk # frames_of (chunk_samples d2) (buffer d2)"
      using True less.prems by (simp add: frames_of_step chunk_def d2_def)
    have pe: "pending_of (chunk_samples d) (buffer d) =
              pending_of (chunk_samples d2) (buffer d2)"
      using True less.prems by (simp add: pending_of_step d2_def)
    show ?thesis
    proof (cases "check_scores (threshold d) (fst r)")
      case (Some w)
      then show ?thesis
        using True
        by (subst process_chunks.simps)
           (simp add: fr finish_def Let_def reset_def r_def [symmetric] chunk_def [symmetric])
    next
      case None
      have lt: "length (buffer d2) < length (buffer d)"
        using True less.prems by (simp add: d2_def)
      have IH: "process_chunks d2 (scored @ [chunk]) =
            Some (finish d2 (scored @ [chunk])
              (score_frames (predict (model d2)) (threshold d2) (hidden (model d2))
                 (frames_of (chunk_samples d2) (buffer d2))))"
        using less.hyps [OF lt] less.prems by (simp add: d2_def)
      have step: "process_chunks d scored = process_chunks d2 (scored @ [chunk])"
        using True None
        by (subst process_chunks.simps)
           (simp add: Let_def r_def [symmetric] chunk_def [symmetric] d2_def)
      show ?thesis
        unfolding step IH fr
        using None
        by (simp add: r_def [symmetric] finish_def pe d2_def split: prod.splits option.splits)
    qed
  qed
qed

lemma check_scores_None_iff:
  "check_scores thr p = None \<longleftrightarrow> (\<forall>(w, s) \<in> set p. s < thr)"
  by (induction p) (auto split: if_splits)


lemma hidden_after_append:
  "hidden_after pr h (fs @ gs) = hidden_after pr (hidden_after pr h fs) gs"
  by (induction fs arbitrary: h) simp_all

lemma score_frames_quiet:
  assumes "\<forall>h f. check_scores thr (fst (pr h f)) = None"
  shows "score_frames pr thr h fs = (None, hidden_after pr h fs, fs)"
  using assms by (induction fs arbitrary: h) (simp_all add: Let_def)

lemma frombuffer_even:
  "even (length bs) \<Longrightarrow> \<exists>xs. frombuffer bs = Inr xs \<and> 2 * length xs = length bs"
  by (induction bs rule: frombuffer.induct) auto

lemma frombuffer_odd: "odd (length bs) \<Longrightarrow> frombuffer bs = Inl ValueError"
  by (induction bs rule: frombuffer.induct) (auto split: sum.splits)

lemma frombuffer_append:
  assumes "frombuffer as = Inr xs" "frombuffer bs = Inr ys"
  shows "frombuffer (as @ bs) = Inr (xs @ ys)"
  using assms
  by (induction as arbitrary: xs rule: frombuffer.induct) (auto split: sum.splits)

lemma frames_of_append:
  "0 < n \<Longrightarrow> frames_of n (xs @ ys) = frames_of n xs @ frames_of n (pending_of n xs @ ys)"
proof (induction "length xs" arbitrary: xs rule: less_induct)
  case less
  show ?case
  proof (cases "n \<le> length xs")
    case False
    then show ?thesis by (simp add: frames_of_short pending_of_short)
  next
    case True
    have "length (drop n xs) < length xs" using True less.prems by simp
    from less.hyps [OF this less.prems]
    have IH: "frames_of n (drop n xs @ ys) =
          frames_of n (drop n xs) @ frames_of n (pending_of n (drop n xs) @ ys)" .
    have "frames_of n (xs @ ys) = take n (xs @ ys) # frames_of n (drop n (xs @ ys))"
      using True less.prems by (intro frames_of_step) simp_all
    also have "\<dots> = take n xs # frames_of n (drop n xs @ ys)"
      using True by simp
    finally show ?thesis
      using True less.prems IH
      by (simp add: frames_of_step [of n xs] pending_of_step [of n xs])
  qed
qed

lemma pending_of_append:
  "0 < n \<Longrightarrow> pending_of n (xs @ ys) = pending_of n (pending_of n xs @ ys)"
proof (induction "length xs" arbitrary: xs rule: less_induct)
  case less
  show ?case
  proof (cases "n \<le> length xs")
    case False
    then show ?thesis by (simp add: pending_of_short)
  next
    case True
    have "length (drop n xs) < length xs" using True less.prems by simp
    from less.hyps [OF this less.prems]
    have IH: "pending_of n (drop n xs @ ys) =
          pending_of n (pending_of n (drop n xs) @ ys)" .
    have "pending_of n (xs @ ys) = pending_of n (drop n (xs @ ys))"
      using True less.prems by (intro pending_of_step) simp_all
    then show ?thesis
      using True less.prems IH by (simp add: pending_of_step [of n xs])
  qed
qed

lemma length_frames_of: "length (frames_of n xs) = length xs div n"
  by (simp add: frames_of_def)

lemma length_pending_of: "length (pending_of n xs) = length xs mod n"
  by (simp add: pending_of_def minus_mult_div_eq_mod)

lemma frame_lengths: "f \<in> set (frames_of n xs) \<Longrightarrow> length f = n"
proof -
  assume "f \<in> set (frames_of n xs)"
  then obtain i where i: "i < length xs div n" and f: "f = take n (drop (i * n) xs)"
    by (auto simp: frames_of_def)
  have "Suc i * n \<le> (length xs div n) * n"
    using i by (intro mult_le_mono1) simp
  also have "\<dots> \<le> length xs" by simp
  finally show ?thesis using f by simp
qed

lemma process_audio_refine:
  assumes "0 < chunk_samples d" "frombuffer c = Inr xs"
  shows "process_audio d c =
         Some (Inr (finish (d\<lparr>buffer := buffer d @ xs\<rparr>) []
           (score_frames (predict (model d)) (threshold d) (hidden (model d))
              (frames_of (chunk_samples d) (buffer d @ xs)))))"
  using assms by (simp add: process_audio_def process_chunks_refine)

lemma process_audio_quiet:
  assumes "0 < chunk_samples d" "frombuffer c = Inr xs"
    and "\<forall>h f. check_scores (threshold d) (fst (predict (model d) h f)) = None"
  shows "process_audio d c =
         Some (Inr (None,
           d\<lparr>buffer := pending_of (chunk_samples d) (buffer d @ xs),
             model := (model d)\<lparr>hidden :=
               hidden_after (predict (model d)) (hidden (model d))
                 (frames_of (chunk_samples d) (buffer d @ xs))\<rparr>\<rparr>,
           frames_of (chunk_samples d) (buffer d @ xs)))"
  by (simp add: process_audio_refine [OF assms(1,2)] score_frames_quiet [OF assms(3)] finish_def)

lemma push_all_quiet:
  assumes "0 < chunk_samples d"
    and "\<forall>h f. check_scores (threshold d) (fst (predict (model d) h f)) = None"
    and "\<forall>c \<in> set chunks. even (length c)"
    and "length (buffer d) < chunk_samples d"
  shows "\<exists>samples. frombuffer (concat chunks) = Inr samples \<and>
           push_all d chunks =
             Some (Inr (replicate (length chunks) None,
               d\<lparr>buffer := pending_of (chunk_samples d) (buffer d @ samples),
                 model := (model d)\<lparr>hidden :=
                   hidden_after (predict (model d)) (hidden (model d))
                     (frames_of (chunk_samples d) (buffer d @ samples))\<rparr>\<rparr>,
               frames_of (chunk_samples d) (buffer d @ samples)))"
  using assms
proof (induction chunks arbitrary: d)
  case Nil
  then show ?case by (simp add: frames_of_short pending_of_short)
next
  case (Cons c chunks)
  let ?n = "chunk_samples d"
  let ?pr = "predict (model d)"
  from Cons.prems(3) obtain xs where xs: "frombuffer c = Inr xs"
    using frombuffer_even [of c] by auto
  define d1 where
    "d1 = d\<lparr>buffer := pending_of ?n (buffer d @ xs),
            model := (model d)\<lparr>hidden :=
              hidden_after ?pr (hidden (model d)) (frames_of ?n (buffer d @ xs))\<rparr>\<rparr>"
  have first: "process_audio d c = Some (Inr (None, d1, frames_of ?n (buffer d @ xs)))"
    unfolding d1_def by (rule process_audio_quiet [OF Cons.prems(1) xs Cons.prems(2)])
  have d1_facts: "chunk_samples d1 = ?n" "threshold d1 = threshold d"
    "predict (model d1) = ?pr" "buffer d1 = pending_of ?n (buffer d @ xs)"
    "hidden (model d1) = hidden_after ?pr (hidden (model d)) (frames_of ?n (buffer d @ xs))"
    by (simp_all add: d1_def)
  have short: "length (buffer d1) < chunk_samples d1"
    using Cons.prems(1) by (simp add: d1_facts length_pending_of)
  have "\<exists>samples. frombuffer (concat chunks) = Inr samples \<and>
           push_all d1 chunks =
             Some (Inr (replicate (length chunks) None,
               d1\<lparr>buffer := pending_of (chunk_samples d1) (buffer d1 @ samples),
                 model := (model d1)\<lparr>hidden :=
                   hidden_after (predict (model d1)) (hidden (model d1))
                     (frames_of (chunk_samples d1) (buffer d1 @ samples))\<rparr>\<rparr>,
               frames_of (chunk_samples d1) (buffer d1 @ samples)))"
    using Cons.prems by (intro Cons.IH short) (simp_all add: d1_facts)
  then obtain ys where ys: "frombuffer (concat chunks) = Inr ys"
    and rest: "push_all d1 chunks =
             Some (Inr (replicate (length chunks) None,
               d1\<lparr>buffer := pending_of ?n (buffer d1 @ ys),
                 model := (model d1)\<lparr>hidden :=
                   hidden_after ?pr (hidden (model d1))
                     (frames_of ?n (buffer d1 @ ys))\<rparr>\<rparr>,
               frames_of ?n (buffer d1 @ ys)))"
    by (auto simp: d1_facts)
  have all: "frombuffer (concat (c # chunks)) = Inr (xs @ ys)"
    using frombuffer_append [OF xs ys] by simp
  have fr: "frames_of ?n (buffer d @ xs @ ys) =
            frames_of ?n (buffer d @ xs) @ frames_of ?n (buffer d1 @ ys)"
    using frames_of_append [OF Cons.prems(1), of "buffer d @ xs" ys] by (simp add: d1_facts)
  have pe: "pending_of ?n (buffer d @ xs @ ys) = pending_of ?n (buffer d1 @ ys)"
    using pending_of_append [OF Cons.prems(1), of "buffer d @ xs" ys] by (simp add: d1_facts)
  have "push_all d (c # chunks) =
          Some (Inr (replicate (length (c # chunks)) None,
               d\<lparr>buffer := pending_of ?n (buffer d @ xs @ ys),
                 model := (model d)\<lparr>hidden :=
                   hidden_after ?pr (hidden (model d))
                     (frames_of ?n (buffer d @ xs @ ys))\<rparr>\<rparr>,
               frames_of ?n (buffer d @ xs @ ys)))"
    unfolding fr pe
    by (simp add: first rest hidden_after_append d1_facts(5)) (simp add: d1_def)
  with all show ?case by blast
qed

subsection \<open>Claims about the wake word detector\<close>

lemma even_length_concat:
  "\<forall>c \<in> set chunks. even (length c) \<Longrightarrow> even (length (concat chunks))"
  by (induction chunks) simp_all

lemma frames_of_nth:
  "i < length xs div n \<Longrightarrow> frames_of n xs ! i = take n (drop (i * n) xs)"
  by (simp add: frames_of_def)

text \<open>
  Claim C1. A detector with frame length 1280 and an empty buffer is fed a sequence of
  chunks, each a whole number of 16-bit samples, and its classifier never reaches the
  threshold. Then every call returns no detection; with \<open>N\<close> the total number of samples,
  the frames passed to the classifier are exactly the \<open>N div 1280\<close> consecutive slices
  of 1280 samples, in order; the buffer keeps the last \<open>N mod 1280\<close> samples; and
  pushing the whole sequence as one chunk gives the same frames and the same detector.
\<close>

theorem framing_correctness:
  assumes "chunk_samples d = 1280" and "buffer d = []"
    and "\<forall>c \<in> set chunks. even (length c)"
    and "\<forall>h f. \<forall>(w, s) \<in> set (fst (predict (model d) h f)). s < threshold d"
  shows "\<exists>samples d'.
           frombuffer (concat chunks) = Inr samples \<and>
           2 * length samples = length (concat chunks) \<and>
           push_all d chunks =
             Some (Inr (replicate (length chunks) None, d', frames_of 1280 samples)) \<and>
           push_all d [concat chunks] = Some (Inr ([None], d', frames_of 1280 samples)) \<and>
           length (frames_of 1280 samples) = length samples div 1280 \<and>
           (\<forall>i < length samples div 1280.
              frames_of 1280 samples ! i = take 1280 (drop (i * 1280) samples)) \<and>
           buffer d' = drop (1280 * (length samples div 1280)) samples \<and>
           length (buffer d') = length samples mod 1280"
proof -
  have pos: "0 < chunk_samples d" and short: "length (buffer d) < chunk_samples d"
    using assms(1,2) by simp_all
  have quiet: "\<forall>h f. check_scores (threshold d) (fst (predict (model d) h f)) = None"
    using assms(4) by (simp add: check_scores_None_iff)
  from push_all_quiet [OF pos quiet assms(3) short]
  obtain samples where s: "frombuffer (concat chunks) = Inr samples"
    and run: "push_all d chunks =
             Some (Inr (replicate (length chunks) None,
               d\<lparr>buffer := pending_of (chunk_samples d) (buffer d @ samples),
                 model := (model d)\<lparr>hidden :=
                   hidden_after (predict (model d)) (hidden (model d))
                     (frames_of (chunk_samples d) (buffer d @ samples))\<rparr>\<rparr>,
               frames_of (chunk_samples d) (buffer d @ samples)))"
    by blast
  have ev: "\<forall>c \<in> set [concat chunks]. even (length c)"
    using even_length_concat [OF assms(3)] by simp
  from push_all_quiet [OF pos quiet ev short] s
  have once: "push_all d [concat chunks] =
             Some (Inr ([None],
               d\<lparr>buffer := pending_of (chunk_samples d) (buffer d @ samples),
                 model := (model d)\<lparr>hidden :=
                   hidden_after (predict (model d)) (hidden (model d))
                     (frames_of (chunk_samples d) (buffer d @ samples))\<rparr>\<rparr>,
               frames_of (chunk_samples d) (buffer d @ samples)))"
    by (simp del: push_all.simps)
  have len: "2 * length samples = length (concat chunks)"
    using frombuffer_even [OF even_length_concat [OF assms(3)]] s by simp
  show ?thesis
    using s len run once
    by (simp add: assms(1,2) length_frames_of frames_of_nth length_pending_of
          pending_of_def [symmetric] del: push_all.simps)
qed

text \<open>
  Witness for C1: 1500 samples pushed as two chunks of 1000 and 500 samples.
\<close>

theorem framing_correctness_witness:
  "\<exists>samples d'.
     frombuffer (concat [replicate 2000 0, replicate 1000 0]) = Inr samples \<and>
     length samples = 1500 \<and>
     push_all quiet_detector [replicate 2000 0, replicate 1000 0] =
       Some (Inr ([None, None], d', frames_of 1280 samples)) \<and>
     push_all quiet_detector [replicate 3000 0] =
       Some (Inr ([None], d', frames_of 1280 samples)) \<and>
     length (frames_of 1280 samples) = 1 \<and>
     frames_of 1280 samples ! 0 = take 1280 samples \<and>
     buffer d' = drop 1280 samples \<and>
     length (buffer d') = 220"
proof -
  have h1: "chunk_samples quiet_detector = 1280" and h2: "buffer quiet_detector = []"
    by (simp_all add: quiet_detector_def)
  have h3: "\<forall>c \<in> set [replicate 2000 (0::byte), replicate 1000 0]. even (length c)"
    by simp
  have h4: "\<forall>h f. \<forall>(w, s) \<in> set (fst (predict (model quiet_detector) h f)).
              s < threshold quiet_detector"
    by (simp add: quiet_detector_def quiet_model_def)
  from framing_correctness [OF h1 h2 h3 h4]
  obtain samples d' where
    "frombuffer (concat [replicate 2000 0, replicate 1000 0]) = Inr samples"
    "2 * length samples = length (concat [replicate 2000 (0::byte), replicate 1000 0])"
    "push_all quiet_detector [replicate 2000 0, replicate 1000 0] =
       Some (Inr (replicate (length [replicate 2000 (0::byte), replicate 1000 0]) None, d',
         frames_of 1280 samples))"
    "push_all quiet_detector [concat [replicate 2000 0, replicate 1000 0]] =
       Some (Inr ([None], d', frames_of 1280 samples))"
    "length (frames_of 1280 samples) = length samples div 1280"
    "\<forall>i < length samples div 1280.
       frames_of 1280 samples ! i = take 1280 (drop (i * 1280) samples)"
    "buffer d' = drop (1280 * (length samples div 1280)) samples"
    "length (buffer d') = length samples mod 1280"
    by blast
  moreover from this(2) have n: "length samples = 1500" by simp
  ultimately show ?thesis
    by (intro exI [of _ samples] exI [of _ d'])
       (simp add: replicate_add [symmetric] del: push_all.simps)
qed





lemma score_frames_prefix:
  "\<exists>n. snd (snd (score_frames pr thr h fs)) = take n fs"
proof (induction fs arbitrary: h)
  case Nil
  then show ?case by simp
next
  case (Cons f fs)
  from Cons.IH [of "snd (pr h f)"] obtain n where
    n: "snd (snd (score_frames pr thr (snd (pr h f)) fs)) = take n fs" by blast
  show ?case
  proof (cases "check_scores thr (fst (pr h f))")
    case None
    with n have "snd (snd (score_frames pr thr h (f # fs))) = take (Suc n) (f # fs)"
      by (auto simp: Let_def split: prod.splits)
    then show ?thesis by blast
  next
    case (Some w)
    then have "snd (snd (score_frames pr thr h (f # fs))) = take (Suc 0) (f # fs)"
      by (simp add: Let_def)
    then show ?thesis by blast
  qed
qed

lemma finish_shape:
  "\<exists>res b h fs'. finish d scored r = (res, d\<lparr>buffer := b, model := (model d)\<lparr>hidden := h\<rparr>\<rparr>, scored @ fs')
      \<and> fs' = snd (snd r)
      \<and> (length (buffer d) < chunk_samples d \<or> 0 < chunk_samples d \<longrightarrow> length b < chunk_samples d)"
  by (cases r rule: prod_cases3; cases "fst r")
     (auto simp: finish_def length_pending_of)

lemma process_audio_shape:
  assumes "0 < chunk_samples d" "frombuffer c = Inr xs"
  shows "\<exists>res b h n. process_audio d c =
           Some (Inr (res, d\<lparr>buffer := b, model := (model d)\<lparr>hidden := h\<rparr>\<rparr>,
                      take n (frames_of (chunk_samples d) (buffer d @ xs))))
         \<and> length b < chunk_samples d"
proof -
  let ?r = "score_frames (predict (model d)) (threshold d) (hidden (model d))
              (frames_of (chunk_samples d) (buffer d @ xs))"
  from finish_shape [of "d\<lparr>buffer := buffer d @ xs\<rparr>" "[]" ?r]
  obtain res b h where
    f: "finish (d\<lparr>buffer := buffer d @ xs\<rparr>) [] ?r =
        (res, d\<lparr>buffer := b, model := (model d)\<lparr>hidden := h\<rparr>\<rparr>, snd (snd ?r))"
    and b: "length b < chunk_samples d"
    using assms(1) by auto
  from score_frames_prefix [of "predict (model d)" "threshold d" "hidden (model d)"
      "frames_of (chunk_samples d) (buffer d @ xs)"]
  obtain n where
    n: "snd (snd ?r) = take n (frames_of (chunk_samples d) (buffer d @ xs))" by blast
  show ?thesis
    using f b n by (auto simp: process_audio_refine [OF assms])
qed

lemma frombuffer_zeros: "frombuffer (replicate (2 * n) 0) = Inr (replicate n 0)"
  by (induction n) simp_all




lemma process_audio_total:
  assumes "0 < chunk_samples d"
  shows "\<exists>res. process_audio d c = Some res"
proof (cases "frombuffer c")
  case (Inl e)
  then show ?thesis by (simp add: process_audio_def)
next
  case (Inr xs)
  then show ?thesis by (simp add: process_audio_refine [OF assms Inr])
qed

lemma process_audio_Inr_even:
  "process_audio d c = Some (Inr x) \<Longrightarrow> even (length c)"
  by (cases "even (length c)") (simp_all add: process_audio_def frombuffer_odd)

text \<open>
  Claim C6. With frame length 1280, every call of \<^verbatim>\<open>process_audio\<close> returns, and when it
  returns a value (a label or none) the buffer is shorter than 1280 samples; so is the
  buffer after \<^verbatim>\<open>reset\<close>.
\<close>

theorem buffer_below_frame_length:
  assumes "chunk_samples d = 1280"
  shows "(\<exists>res. process_audio d audio_chunk = Some res) \<and>
         (\<forall>r d' fs. process_audio d audio_chunk = Some (Inr (r, d', fs)) \<longrightarrow>
            length (buffer d') < 1280) \<and>
         length (buffer (reset d)) < 1280"
proof (intro conjI allI impI)
  have pos: "0 < chunk_samples d" using assms by simp
  show "\<exists>res. process_audio d audio_chunk = Some res"
    by (rule process_audio_total [OF pos])
  show "length (buffer (reset d)) < 1280" by (simp add: reset_def)
  fix r d' fs
  assume run: "process_audio d audio_chunk = Some (Inr (r, d', fs))"
  then obtain xs where xs: "frombuffer audio_chunk = Inr xs"
    using frombuffer_even [OF process_audio_Inr_even [OF run]] by blast
  from process_audio_shape [OF pos xs] run assms
  show "length (buffer d') < 1280" by auto
qed

text \<open>
  Witness for C6: 1500 samples with a detection on the first frame.
\<close>

theorem buffer_below_frame_length_witness:
  "process_audio (scripted_detector [6/10]) (replicate 3000 0) =
     Some (Inr (Some ''hey-x'', scripted_detector [], [replicate 1280 0])) \<and>
   length (buffer (scripted_detector [])) < 1280"
proof -
  let ?d = "scripted_detector [6/10]"
  have cs: "chunk_samples ?d = 1280" by (simp add: scripted_detector_def)
  have pos: "0 < chunk_samples ?d" by (simp add: scripted_detector_def)
  have fb: "frombuffer (replicate 3000 0) = Inr (replicate 1500 0)"
    using frombuffer_zeros [of 1500] by simp
  have fr: "frames_of 1280 (replicate 1500 (0::int16)) = [replicate 1280 0]"
    by (simp add: frames_of_def)
  have run: "process_audio ?d (replicate 3000 0) =
     Some (Inr (Some ''hey-x'', scripted_detector [], [replicate 1280 0]))"
    unfolding process_audio_refine [OF pos fb]
    by (simp add: scripted_detector_def scripted_model_def fr finish_def)
  from buffer_below_frame_length [OF cs, of "replicate 3000 0"] run
  show ?thesis by simp
qed




text \<open>
  Claim C8 fails as stated: a chunk of three bytes raises \<^verbatim>\<open>ValueError\<close>.
\<close>

theorem odd_chunk_raises:
  "process_audio quiet_detector [0, 0, 0] = Some (Inl ValueError)"
  by (simp add: process_audio_def)

text \<open>
  Claim C8, amended. With frame length 1280, a chunk with an even number of bytes (also
  an empty one, or one that is no multiple of the frame size) is accepted: the call
  returns a value, and every frame passed to the classifier has 1280 samples. A chunk
  with an odd number of bytes raises \<^verbatim>\<open>ValueError\<close>.
\<close>

theorem whole_sample_chunks_accepted:
  assumes "chunk_samples d = 1280"
  shows "(even (length audio_chunk) \<longrightarrow>
            (\<exists>r d' fs. process_audio d audio_chunk = Some (Inr (r, d', fs)) \<and>
               (\<forall>f \<in> set fs. length f = 1280))) \<and>
         (odd (length audio_chunk) \<longrightarrow> process_audio d audio_chunk = Some (Inl ValueError))"
proof (intro conjI impI)
  have pos: "0 < chunk_samples d" using assms by simp
  show "process_audio d audio_chunk = Some (Inl ValueError)" if "odd (length audio_chunk)"
    using that by (simp add: process_audio_def frombuffer_odd)
  assume "even (length audio_chunk)"
  then obtain xs where xs: "frombuffer audio_chunk = Inr xs"
    using frombuffer_even by blast
  from process_audio_shape [OF pos xs] obtain res b h n where
    run: "process_audio d audio_chunk =
           Some (Inr (res, d\<lparr>buffer := b, model := (model d)\<lparr>hidden := h\<rparr>\<rparr>,
                      take n (frames_of (chunk_samples d) (buffer d @ xs))))"
    by blast
  have "\<forall>f \<in> set (take n (frames_of (chunk_samples d) (buffer d @ xs))). length f = 1280"
    using assms by (auto dest!: in_set_takeD frame_lengths)
  with run show "\<exists>r d' fs. process_audio d audio_chunk = Some (Inr (r, d', fs)) \<and>
               (\<forall>f \<in> set fs. length f = 1280)"
    by blast
qed

text \<open>
  Witness for the amended C8: an empty chunk, 3000 bytes, and a single byte.
\<close>

theorem whole_sample_chunks_accepted_witness:
  "(\<exists>r d' fs. process_audio quiet_detector [] = Some (Inr (r, d', fs)) \<and>
       (\<forall>f \<in> set fs. length f = 1280)) \<and>
   (\<exists>r d' fs. process_audio quiet_detector (replicate 3000 0) = Some (Inr (r, d', fs)) \<and>
       (\<forall>f \<in> set fs. length f = 1280)) \<and>
   process_audio quiet_detector [7] = Some (Inl ValueError)"
proof -
  have cs: "chunk_samples quiet_detector = 1280" by (simp add: quiet_detector_def)
  show ?thesis
    using whole_sample_chunks_accepted [OF cs, of "[]"]
      whole_sample_chunks_accepted [OF cs, of "replicate 3000 0"]
      whole_sample_chunks_accepted [OF cs, of "[7]"]
    by simp
qed

text \<open>
  Claim C10. \<^verbatim>\<open>process_audio\<close> always returns, and the detector it leaves differs from the
  one it was called on in the buffer and the classifier's hidden state only: the
  threshold, the frame length 1280, the model names and the classifier's methods are the
  same. The same holds for \<^verbatim>\<open>reset\<close>.
\<close>

theorem detector_frame_effect:
  assumes "chunk_samples d = 1280"
  shows "(\<exists>res. process_audio d audio_chunk = Some res) \<and>
         (\<forall>r d' fs. process_audio d audio_chunk = Some (Inr (r, d', fs)) \<longrightarrow>
            (\<exists>b h. d' = d\<lparr>buffer := b, model := (model d)\<lparr>hidden := h\<rparr>\<rparr>) \<and>
            threshold d' = threshold d \<and> chunk_samples d' = 1280 \<and>
            model_names d' = model_names d \<and>
            predict (model d') = predict (model d) \<and>
            model_reset (model d') = model_reset (model d)) \<and>
         (\<exists>b h. reset d = d\<lparr>buffer := b, model := (model d)\<lparr>hidden := h\<rparr>\<rparr>) \<and>
         threshold (reset d) = threshold d \<and> chunk_samples (reset d) = 1280 \<and>
         model_names (reset d) = model_names d \<and>
         predict (model (reset d)) = predict (model d) \<and>
         model_reset (model (reset d)) = model_reset (model d)"
proof -
  have pos: "0 < chunk_samples d" using assms by simp
  have total: "\<exists>res. process_audio d audio_chunk = Some res"
    by (rule process_audio_total [OF pos])
  have call: "\<forall>r d' fs. process_audio d audio_chunk = Some (Inr (r, d', fs)) \<longrightarrow>
            (\<exists>b h. d' = d\<lparr>buffer := b, model := (model d)\<lparr>hidden := h\<rparr>\<rparr>) \<and>
            threshold d' = threshold d \<and> chunk_samples d' = 1280 \<and>
            model_names d' = model_names d \<and>
            predict (model d') = predict (model d) \<and>
            model_reset (model d') = model_reset (model d)"
  proof (intro allI impI)
    fix r d' fs
    assume run: "process_audio d audio_chunk = Some (Inr (r, d', fs))"
    obtain xs where xs: "frombuffer audio_chunk = Inr xs"
      using frombuffer_even [OF process_audio_Inr_even [OF run]] by blast
    from process_audio_shape [OF pos xs] obtain res b h n where
      "process_audio d audio_chunk =
           Some (Inr (res, d\<lparr>buffer := b, model := (model d)\<lparr>hidden := h\<rparr>\<rparr>,
                      take n (frames_of (chunk_samples d) (buffer d @ xs))))"
      by blast
    with run have d': "d' = d\<lparr>buffer := b, model := (model d)\<lparr>hidden := h\<rparr>\<rparr>"
      by simp
    have 1: "\<exists>b h. d' = d\<lparr>buffer := b, model := (model d)\<lparr>hidden := h\<rparr>\<rparr>"
      using d' by blast
    have 2: "threshold d' = threshold d" "chunk_samples d' = 1280"
      "model_names d' = model_names d" "predict (model d') = predict (model d)"
      "model_reset (model d') = model_reset (model d)"
      by (simp_all add: d' assms)
    from 1 2 show "(\<exists>b h. d' = d\<lparr>buffer := b, model := (model d)\<lparr>hidden := h\<rparr>\<rparr>) \<and>
            threshold d' = threshold d \<and> chunk_samples d' = 1280 \<and>
            model_names d' = model_names d \<and>
            predict (model d') = predict (model d) \<and>
            model_reset (model d') = model_reset (model d)"
      by (intro conjI)
  qed
  have rs: "reset d = d\<lparr>buffer := [],
      model := (model d)\<lparr>hidden := model_reset (model d) (hidden (model d))\<rparr>\<rparr>"
    by (simp add: reset_def)
  have r1: "\<exists>b h. reset d = d\<lparr>buffer := b, model := (model d)\<lparr>hidden := h\<rparr>\<rparr>"
    using rs by blast
  have r2: "threshold (reset d) = threshold d" "chunk_samples (reset d) = 1280"
    "model_names (reset d) = model_names d"
    "predict (model (reset d)) = predict (model d)"
    "model_reset (model (reset d)) = model_reset (model d)"
    by (simp_all add: reset_def assms)
  from total call r1 r2 show ?thesis by (intro conjI)
qed

text \<open>
  Witness for C10: the detector after a detection.
\<close>

theorem detector_frame_effect_witness:
  "process_audio (scripted_detector [6/10]) (replicate 3000 0) =
     Some (Inr (Some ''hey-x'', scripted_detector [], [replicate 1280 0])) \<and>
   threshold (scripted_detector []) = threshold (scripted_detector [6/10]) \<and>
   chunk_samples (scripted_detector []) = 1280 \<and>
   model_names (scripted_detector []) = model_names (scripted_detector [6/10])"
proof -
  let ?d = "scripted_detector [6/10]"
  have cs: "chunk_samples ?d = 1280" by (simp add: scripted_detector_def)
  have pos: "0 < chunk_samples ?d" by (simp add: scripted_detector_def)
  have fb: "frombuffer (replicate 3000 0) = Inr (replicate 1500 0)"
    using frombuffer_zeros [of 1500] by simp
  have fr: "frames_of 1280 (replicate 1500 (0::int16)) = [replicate 1280 0]"
    by (simp add: frames_of_def)
  have run: "process_audio ?d (replicate 3000 0) =
     Some (Inr (Some ''hey-x'', scripted_detector [], [replicate 1280 0]))"
    unfolding process_audio_refine [OF pos fb]
    by (simp add: scripted_detector_def scripted_model_def fr finish_def)
  from detector_frame_effect [OF cs, of "replicate 3000 0", THEN conjunct2, THEN conjunct1,
      THEN spec, THEN spec, THEN spec, THEN mp, OF run]
  have "threshold (scripted_detector []) = threshold ?d \<and>
        chunk_samples (scripted_detector []) = 1280 \<and>
        model_names (scripted_detector []) = model_names ?d"
    by blast
  with run show ?thesis by blast
qed

subsection \<open>Claims about the voice assistant\<close>

lemma WakeWordDetector_init_fresh:
  "chunk_samples (WakeWordDetector_init loaded path thr) = 1280"
  "buffer (WakeWordDetector_init loaded path thr) = []"
  "threshold (WakeWordDetector_init loaded path thr) = thr"
  by (simp_all add: WakeWordDetector_init_def)


lemma quiet_detector_init: "quiet_detector = WakeWordDetector_init quiet_model None (1 / 2)"
  by (simp add: quiet_detector_def WakeWordDetector_init_def)

text \<open>
  Claim C5. A second call of \<^verbatim>\<open>shutdown\<close> right after a first prints nothing and leaves
  the assistant as the first call left it, with the running flag cleared. A call when the
  flag is already cleared does nothing at all. A call when the flag is set clears it,
  sets the state to \<open>LISTENING\<close> and stops the capture and the player.
\<close>

theorem shutdown_idempotent:
  "snd (shutdown (snd (shutdown a))) = snd (shutdown a) \<and>
   fst (shutdown (snd (shutdown a))) = [] \<and>
   \<not> running (snd (shutdown a)) \<and>
   (\<not> running a \<longrightarrow> shutdown a = ([], a)) \<and>
   (running a \<longrightarrow>
      snd (shutdown a) =
        a\<lparr>running := False, state := LISTENING,
          capture := (capture a)\<lparr>capture_dev :=
            capture_stop (capture a) (capture_dev (capture a))\<rparr>,
          player := (player a)\<lparr>player_dev :=
            player_stop (player a) (player_dev (player a))\<rparr>\<rparr>)"
  by (simp add: shutdown_def)

text \<open>
  Witness for C5: an assistant that is not running, and one that is running and responding.
\<close>

theorem shutdown_idempotent_witness:
  "shutdown (demo_assistant []) = ([], demo_assistant []) \<and>
   snd (shutdown ((demo_assistant [])
      \<lparr>running := True, state := RESPONDING,
        capture := demo_capture\<lparr>capture_dev := True\<rparr>,
        player := demo_player\<lparr>player_dev := (True, [])\<rparr>\<rparr>)) = demo_assistant [] \<and>
   snd (shutdown (snd (shutdown ((demo_assistant [])
      \<lparr>running := True, state := RESPONDING,
        capture := demo_capture\<lparr>capture_dev := True\<rparr>,
        player := demo_player\<lparr>player_dev := (True, [])\<rparr>\<rparr>)))) = demo_assistant []"
proof -
  let ?a = "(demo_assistant [])
      \<lparr>running := True, state := RESPONDING,
        capture := demo_capture\<lparr>capture_dev := True\<rparr>,
        player := demo_player\<lparr>player_dev := (True, [])\<rparr>\<rparr>"
  have off: "\<not> running (demo_assistant [])" and on: "running ?a"
    by (simp_all add: demo_assistant_def)
  note idle = shutdown_idempotent [of "demo_assistant []", THEN conjunct2, THEN conjunct2,
      THEN conjunct2, THEN conjunct1, THEN mp, OF off]
  note twice = shutdown_idempotent [of ?a, THEN conjunct1]
  note once = shutdown_idempotent [of ?a, THEN conjunct2, THEN conjunct2,
      THEN conjunct2, THEN conjunct2, THEN mp, OF on]
  have eq: "snd (shutdown ?a) = demo_assistant []"
    unfolding once by (simp add: demo_assistant_def demo_capture_def demo_player_def)
  show ?thesis using idle twice eq by simp
qed






lemma every_second_split:
  "k \<le> n \<Longrightarrow> every_second t0 n = every_second t0 k @ map (\<lambda>i. t0 + real (Suc i)) [k..<n]"
proof -
  assume "k \<le> n"
  then have "[0..<n] = [0..<k] @ [k..<n]"
    using upt_add_eq_append [of 0 k "n - k"] by simp
  then show ?thesis by (simp add: every_second_def)
qed

lemma take_every_second: "k \<le> n \<Longrightarrow> take k (every_second t0 n) = every_second t0 k"
  by (simp add: every_second_def take_map)










lemma inside_Nil [simp]: "inside s []"
  by (simp add: inside_def)


lemma inside_Print [simp]: "inside s (Print msg # out) \<longleftrightarrow> inside s out"
  by (simp add: inside_def)



















lemma listened_skip: "state a = LISTENING \<Longrightarrow> \<not> found \<Longrightarrow> listened a found [] (a\<lparr>wakeword_detector := Some d\<rparr>)"
  by (simp add: listened_def)

























lemma plain_init:
  "VoiceAssistant_init (Some ''key'') None None
     (Some (WakeWordConfig_default\<lparr>enabled := False\<rparr>))
     demo_capture demo_player (scripted_model []) = Inr plain_assistant"
  by (simp add: VoiceAssistant_init_def plain_assistant_def demo_assistant_def
      WakeWordConfig_default_def)

text \<open>
  After the receive loop has ended while the state is \<open>RESPONDING\<close>, the two other tasks
  alone never change the state: the watchdog acts only in \<open>ACTIVATED\<close>, and a completed
  send only stamps the activity time.
\<close>

lemma responding_stays:
  assumes "running a" "state a = RESPONDING"
    and "\<forall>st \<in> set steps. (\<exists>t. st = Sent t) \<or> (\<exists>t. st = Woke t) \<or> (\<exists>e. st = Receive_raises e)"
  shows "state (snd (fire_all steps a)) = RESPONDING \<and> running (snd (fire_all steps a))"
  using assms
proof (induction steps arbitrary: a)
  case Nil
  then show ?case by simp
next
  case (Cons st steps)
  obtain out1 a1 where f: "fire st a = (out1, a1)" by (cases "fire st a")
  from Cons.prems(3) have "(\<exists>t. st = Sent t) \<or> (\<exists>t. st = Woke t) \<or> (\<exists>e. st = Receive_raises e)"
    by simp
  with f Cons.prems(1,2) have a1: "running a1" "state a1 = RESPONDING"
    by (auto simp: on_sent_def on_wakeup_def on_receive_error_def)
  from Cons.prems(3) have rest:
    "\<forall>st \<in> set steps. (\<exists>t. st = Sent t) \<or> (\<exists>t. st = Woke t) \<or> (\<exists>e. st = Receive_raises e)"
    by simp
  from Cons.IH [OF a1 rest] f show ?case
    by (simp add: split_beta)
qed

end
